theory Spec2Isabelle
  imports Main "HOL-Library.Word" "HOL-Library.Signed_Division" "HOL-Library.Multiset"
begin

section \<open>The in-memory storage backend (internal/backend/memory.go)\<close>

text \<open>
  A shallow embedding of \<^verbatim>\<open>memory.go\<close>. The store is a value that every mutating
  operation takes and returns; the mutex is left out, so the model is the sequential
  behaviour of the operations. Go slices are lists: the code always writes the bucket it
  changed back into the map, and no two buckets share a backing array, so the aliasing of
  slices is not observable through the operations modelled here.
\<close>

subsection \<open>The clock\<close>

type_synonym int64 = "64 word"

text \<open>
  A reading of \<^verbatim>\<open>time.Now()\<close>, as the two observations the code makes of it:
  \<^verbatim>\<open>UnixNano()\<close> and \<^verbatim>\<open>Format(time.RFC3339)\<close>.
\<close>

record Time =
  UnixNano :: int64
  RFC3339 :: string

text \<open>
  The readings one operation may take, one for each place that calls \<^verbatim>\<open>time.Now()\<close>:
  in \<^verbatim>\<open>newBucketInMemory\<close>, in \<^verbatim>\<open>getNewGenerationIfZero\<close>, and where the
  \<^verbatim>\<open>Deleted\<close> field is stamped. No operation passes any of these places twice.
\<close>

record Clock =
  nowCreated :: Time
  nowGeneration :: Time
  nowDeleted :: Time

text \<open>Go's \<^verbatim>\<open>/\<close> on \<^verbatim>\<open>int64\<close>: the quotient is truncated towards zero.\<close>

definition int64_div :: "int64 \<Rightarrow> int64 \<Rightarrow> int64" where
  "int64_div a b = word_of_int (sint a sdiv sint b)"

subsection \<open>Buckets and objects\<close>

text \<open>
  The struct \<^verbatim>\<open>Bucket\<close> is declared outside \<^verbatim>\<open>memory.go\<close>; its three fields are the
  ones \<^verbatim>\<open>newBucketInMemory\<close> fills and \<^verbatim>\<open>ListBuckets\<close> reads.
\<close>

record Bucket =
  Name :: string
  VersioningEnabled :: bool
  TimeCreated :: Time

text \<open>
  Modelled from the spec: the declaration of \<^verbatim>\<open>Object\<close> and its methods \<^verbatim>\<open>ID\<close> and
  \<^verbatim>\<open>IDNoGen\<close> are not in \<^verbatim>\<open>memory.go\<close>. The spec gives an object a bucket name, a
  name, a generation, a deleted marker and payload fields opaque to the engine (here
  \<open>Content\<close>); the full identity is (bucket, name, generation) and the logical identity
  is (bucket, name).
\<close>

record Object =
  BucketName :: string
  Name :: string
  Generation :: int64
  Deleted :: string
  Content :: string

text \<open>
  Modelled from the spec: the method \<^verbatim>\<open>ID\<close> of \<^verbatim>\<open>Object\<close>, missing from
  \<^verbatim>\<open>memory.go\<close>. Two objects have the same full identity when bucket, name and
  generation are all equal.
\<close>

definition ID :: "Object \<Rightarrow> string \<times> string \<times> int64" where
  "ID obj = (BucketName obj, Object.Name obj, Generation obj)"

text \<open>
  Modelled from the spec: the method \<^verbatim>\<open>IDNoGen\<close> of \<^verbatim>\<open>Object\<close>, missing from
  \<^verbatim>\<open>memory.go\<close>. Two objects have the same logical identity when bucket and name are
  equal; the generation is ignored.
\<close>

definition IDNoGen :: "Object \<Rightarrow> string \<times> string" where
  "IDNoGen obj = (BucketName obj, Object.Name obj)"

record bucketInMemory = Bucket +
  activeObjects :: "Object list"
  archivedObjects :: "Object list"

record StorageMemory =
  buckets :: "string \<rightharpoonup> bucketInMemory"

text \<open>
  The errors of the code, told apart by their message, and the run-time panic of an
  index out of range.
\<close>

datatype error =
    NoBucketNamed string
  | BucketAlreadyExists string
  | ObjectNotFound
  | IndexOutOfRange

text \<open>The kinds of error the spec names.\<close>

datatype error_kind = NotFound | Conflict | Panic

fun kind :: "error \<Rightarrow> error_kind" where
  "kind (NoBucketNamed name) = NotFound"
| "kind (BucketAlreadyExists name) = Conflict"
| "kind ObjectNotFound = NotFound"
| "kind IndexOutOfRange = Panic"

subsection \<open>Per-bucket logic\<close>

definition newBucketInMemory :: "Time \<Rightarrow> string \<Rightarrow> bool \<Rightarrow> bucketInMemory" where
  "newBucketInMemory now name versioningEnabled =
     \<lparr>Bucket.Name = name, VersioningEnabled = versioningEnabled, TimeCreated = now,
      activeObjects = [], archivedObjects = []\<rparr>"

text \<open>
  \<^verbatim>\<open>findObject\<close>: the loop over the list, with the index \<open>i\<close> of its head; \<open>-1\<close> when
  the list is exhausted.
\<close>

fun findObject_from :: "int \<Rightarrow> Object \<Rightarrow> Object list \<Rightarrow> bool \<Rightarrow> int" where
  "findObject_from i obj [] matchGeneration = -1"
| "findObject_from i obj (ob # objectList) matchGeneration =
     (if matchGeneration \<and> ID obj = ID ob then i
      else if \<not> matchGeneration \<and> IDNoGen obj = IDNoGen ob then i
      else findObject_from (i + 1) obj objectList matchGeneration)"

definition findObject :: "Object \<Rightarrow> Object list \<Rightarrow> bool \<Rightarrow> int" where
  "findObject obj objectList matchGeneration = findObject_from 0 obj objectList matchGeneration"

definition getNewGenerationIfZero :: "Time \<Rightarrow> int64 \<Rightarrow> int64" where
  "getNewGenerationIfZero now generation =
     (if generation = 0 then int64_div (UnixNano now) 1000 else generation)"

definition cpToArchive :: "Object \<Rightarrow> bucketInMemory \<Rightarrow> bucketInMemory" where
  "cpToArchive obj bm = bm\<lparr>archivedObjects := archivedObjects bm @ [obj]\<rparr>"

definition addObject :: "Clock \<Rightarrow> Object \<Rightarrow> bucketInMemory \<Rightarrow> bucketInMemory" where
  "addObject c obj0 bm =
     (let obj = obj0\<lparr>Generation := getNewGenerationIfZero (nowGeneration c) (Generation obj0)\<rparr>;
          index = findObject obj (activeObjects bm) False
      in if index \<ge> 0 then
           (if VersioningEnabled bm then
              let stamped = (activeObjects bm ! nat index)\<lparr>Deleted := RFC3339 (nowDeleted c)\<rparr>;
                  bm1 = bm\<lparr>activeObjects := (activeObjects bm)[nat index := stamped]\<rparr>;
                  bm2 = cpToArchive (activeObjects bm1 ! nat index) bm1
              in bm2\<lparr>activeObjects := (activeObjects bm2)[nat index := obj]\<rparr>
            else bm\<lparr>activeObjects := (activeObjects bm)[nat index := obj]\<rparr>)
         else bm\<lparr>activeObjects := activeObjects bm @ [obj]\<rparr>)"

text \<open>
  \<^verbatim>\<open>deleteFromObjectList\<close> indexes the list with the result of \<^verbatim>\<open>findObject\<close>
  unchecked: an index of \<open>-1\<close> (or any index outside the list) is the panic
  \<open>IndexOutOfRange\<close>. Inside the list, the entry is overwritten with the last one and the
  list loses its last slot.
\<close>

definition deleteFromObjectList :: "Object \<Rightarrow> bool \<Rightarrow> bucketInMemory \<Rightarrow> error + bucketInMemory" where
  "deleteFromObjectList obj active bm =
     (let objects = (if active then activeObjects bm else archivedObjects bm);
          index = findObject obj objects (\<not> active)
      in if index < 0 \<or> int (length objects) \<le> index then Inl IndexOutOfRange
         else
           let objects' = take (length objects - 1) (objects[nat index := objects ! (length objects - 1)])
           in if active then Inr (bm\<lparr>activeObjects := objects'\<rparr>)
              else Inr (bm\<lparr>archivedObjects := objects'\<rparr>))"

definition mvToArchive :: "Object \<Rightarrow> bucketInMemory \<Rightarrow> error + bucketInMemory" where
  "mvToArchive obj bm = deleteFromObjectList obj True (cpToArchive obj bm)"

definition deleteObject :: "Clock \<Rightarrow> Object \<Rightarrow> bool \<Rightarrow> bucketInMemory \<Rightarrow> error + bucketInMemory" where
  "deleteObject c obj matchGeneration bm =
     (let index = findObject obj (activeObjects bm) matchGeneration
      in if index < 0 then Inr bm
         else if VersioningEnabled bm then
           mvToArchive (obj\<lparr>Deleted := RFC3339 (nowDeleted c)\<rparr>) bm
         else deleteFromObjectList obj True bm)"

subsection \<open>The storage engine\<close>

definition getBucketInMemory :: "StorageMemory \<Rightarrow> string \<Rightarrow> error + bucketInMemory" where
  "getBucketInMemory s name =
     (case buckets s name of
        Some bm \<Rightarrow> Inr bm
      | None \<Rightarrow> Inl (NoBucketNamed name))"

text \<open>A mutating operation returns its error (\<open>None\<close> for \<^verbatim>\<open>nil\<close>) and the store.\<close>

definition CreateBucket :: "Clock \<Rightarrow> string \<Rightarrow> bool \<Rightarrow> StorageMemory \<Rightarrow> error option \<times> StorageMemory" where
  "CreateBucket c name versioningEnabled s =
     (case getBucketInMemory s name of
        Inr bucket \<Rightarrow>
          if VersioningEnabled bucket \<noteq> versioningEnabled
          then (Some (BucketAlreadyExists name), s)
          else (None, s)
      | Inl err \<Rightarrow>
          (None, s\<lparr>buckets := (buckets s)(name \<mapsto> newBucketInMemory (nowCreated c) name versioningEnabled)\<rparr>))"

definition ListBuckets :: "StorageMemory \<Rightarrow> Bucket set" where
  "ListBuckets s =
     (\<lambda>bm. \<lparr>Bucket.Name = Bucket.Name bm, VersioningEnabled = VersioningEnabled bm,
            TimeCreated = TimeCreated bm\<rparr>) ` ran (buckets s)"

definition GetBucket :: "StorageMemory \<Rightarrow> string \<Rightarrow> error + Bucket" where
  "GetBucket s name =
     (case getBucketInMemory s name of
        Inl err \<Rightarrow> Inl err
      | Inr bm \<Rightarrow> Inr \<lparr>Bucket.Name = Bucket.Name bm, VersioningEnabled = VersioningEnabled bm,
                      TimeCreated = TimeCreated bm\<rparr>)"

definition CreateObject :: "Clock \<Rightarrow> Object \<Rightarrow> StorageMemory \<Rightarrow> error option \<times> StorageMemory" where
  "CreateObject c obj s =
     (let bm = (case getBucketInMemory s (BucketName obj) of
                  Inr bm \<Rightarrow> bm
                | Inl err \<Rightarrow> newBucketInMemory (nowCreated c) (BucketName obj) False)
      in (None, s\<lparr>buckets := (buckets s)(BucketName obj \<mapsto> addObject c obj bm)\<rparr>))"

definition ListObjects :: "StorageMemory \<Rightarrow> string \<Rightarrow> bool \<Rightarrow> error + Object list" where
  "ListObjects s bucketName versions =
     (case getBucketInMemory s bucketName of
        Inl err \<Rightarrow> Inl err
      | Inr bm \<Rightarrow>
          if \<not> versions then Inr (activeObjects bm)
          else Inr (activeObjects bm @ archivedObjects bm))"

text \<open>
  The Go function returns an object beside its error; a caller that sees an error does
  not read the object, and the model keeps only the error then.
\<close>

definition GetObjectWithGeneration :: "StorageMemory \<Rightarrow> string \<Rightarrow> string \<Rightarrow> int64 \<Rightarrow> error + Object" where
  "GetObjectWithGeneration s bucketName objectName generation =
     (case getBucketInMemory s bucketName of
        Inl err \<Rightarrow> Inl err
      | Inr bm \<Rightarrow>
          let obj0 = \<lparr>BucketName = bucketName, Name = objectName, Generation = 0,
                      Deleted = [], Content = []\<rparr>;
              matchGeneration = (generation \<noteq> 0);
              obj = (if generation \<noteq> 0 then obj0\<lparr>Generation := generation\<rparr> else obj0);
              listToConsider = (if generation \<noteq> 0 then activeObjects bm @ archivedObjects bm
                                else activeObjects bm);
              index = findObject obj listToConsider matchGeneration
          in if index < 0 then Inl ObjectNotFound
             else Inr (listToConsider ! nat index))"

definition GetObject :: "StorageMemory \<Rightarrow> string \<Rightarrow> string \<Rightarrow> error + Object" where
  "GetObject s bucketName objectName = GetObjectWithGeneration s bucketName objectName 0"

definition DeleteObject :: "Clock \<Rightarrow> string \<Rightarrow> string \<Rightarrow> StorageMemory \<Rightarrow> error option \<times> StorageMemory" where
  "DeleteObject c bucketName objectName s =
     (case GetObject s bucketName objectName of
        Inl err \<Rightarrow> (Some err, s)
      | Inr obj \<Rightarrow>
          (case getBucketInMemory s bucketName of
             Inl err \<Rightarrow> (Some err, s)
           | Inr bm \<Rightarrow>
               (case deleteObject c obj True bm of
                  Inl panic \<Rightarrow> (Some panic, s)
                | Inr bm' \<Rightarrow> (None, s\<lparr>buckets := (buckets s)(bucketName \<mapsto> bm')\<rparr>))))"

text \<open>
  Reading a key that a Go map does not hold gives the zero value of the element type.
  \<^verbatim>\<open>NewStorageMemory\<close> reads the map right after \<^verbatim>\<open>CreateBucket\<close>, whose error it
  drops.
\<close>

definition zeroBucketInMemory :: bucketInMemory where
  "zeroBucketInMemory =
     \<lparr>Bucket.Name = [], VersioningEnabled = False,
      TimeCreated = \<lparr>UnixNano = - 6795364578871345152, RFC3339 = ''0001-01-01T00:00:00Z''\<rparr>,
      activeObjects = [], archivedObjects = []\<rparr>"

definition seedObject :: "StorageMemory \<Rightarrow> Clock \<times> Object \<Rightarrow> StorageMemory" where
  "seedObject s co =
     (let c = fst co; ob = snd co;
          s1 = snd (CreateBucket c (BucketName ob) False s);
          bucket = (case buckets s1 (BucketName ob) of Some bm \<Rightarrow> bm | None \<Rightarrow> zeroBucketInMemory)
      in s1\<lparr>buckets := (buckets s1)(BucketName ob \<mapsto> addObject c ob bucket)\<rparr>)"

definition NewStorageMemory :: "(Clock \<times> Object) list \<Rightarrow> StorageMemory" where
  "NewStorageMemory objects = foldl seedObject \<lparr>buckets = Map.empty\<rparr> objects"

subsection \<open>Sequences of operations\<close>

text \<open>
  The public operations, each with the clock readings it may take, and the store they
  leave behind. The read operations return no store: they leave it as it is.
\<close>

datatype operation =
    OpCreateBucket Clock string bool
  | OpCreateObject Clock Object
  | OpDeleteObject Clock string string
  | OpListBuckets
  | OpGetBucket string
  | OpListObjects string bool
  | OpGetObject string string
  | OpGetObjectWithGeneration string string int64

fun perform :: "StorageMemory \<Rightarrow> operation \<Rightarrow> StorageMemory" where
  "perform s (OpCreateBucket c name versioningEnabled) = snd (CreateBucket c name versioningEnabled s)"
| "perform s (OpCreateObject c obj) = snd (CreateObject c obj s)"
| "perform s (OpDeleteObject c bucketName objectName) = snd (DeleteObject c bucketName objectName s)"
| "perform s OpListBuckets = s"
| "perform s (OpGetBucket name) = s"
| "perform s (OpListObjects bucketName versions) = s"
| "perform s (OpGetObject bucketName objectName) = s"
| "perform s (OpGetObjectWithGeneration bucketName objectName generation) = s"

definition run :: "StorageMemory \<Rightarrow> operation list \<Rightarrow> StorageMemory" where
  "run s ops = foldl perform s ops"

subsection \<open>Properties of states\<close>

text \<open>What \<^verbatim>\<open>findObject\<close> compares: the full identity, or the logical identity.\<close>

definition matches :: "Object \<Rightarrow> bool \<Rightarrow> Object \<Rightarrow> bool" where
  "matches obj matchGeneration ob =
     (if matchGeneration then ID obj = ID ob else IDNoGen obj = IDNoGen ob)"

text \<open>\<^verbatim>\<open>Format(time.RFC3339)\<close> gives a non-empty string.\<close>

definition stamp_ok :: "Clock \<Rightarrow> bool" where
  "stamp_ok c \<longleftrightarrow> RFC3339 (nowDeleted c) \<noteq> []"

fun op_stamp_ok :: "operation \<Rightarrow> bool" where
  "op_stamp_ok (OpCreateObject c obj) = stamp_ok c"
| "op_stamp_ok (OpDeleteObject c bucketName objectName) = stamp_ok c"
| "op_stamp_ok opn = True"

text \<open>The invariant of the data model: one active entry per logical identity, and a
  deleted marker on every archived entry.\<close>

definition active_unique :: "bucketInMemory \<Rightarrow> bool" where
  "active_unique bm \<longleftrightarrow> distinct (map IDNoGen (activeObjects bm))"

definition archived_marked :: "bucketInMemory \<Rightarrow> bool" where
  "archived_marked bm \<longleftrightarrow> list_all (\<lambda>ob. Deleted ob \<noteq> []) (archivedObjects bm)"

definition store_invariant :: "StorageMemory \<Rightarrow> bool" where
  "store_invariant s \<longleftrightarrow>
     (\<forall>name. case buckets s name of
                None \<Rightarrow> True
              | Some bm \<Rightarrow> active_unique bm \<and> archived_marked bm)"

text \<open>The active entries with a given logical identity.\<close>

definition active_with :: "string \<times> string \<Rightarrow> bucketInMemory \<Rightarrow> Object list" where
  "active_with key bm = filter (\<lambda>ob. IDNoGen ob = key) (activeObjects bm)"

text \<open>Only a bucket with versioning enabled archives anything.\<close>

definition archive_policy :: "bucketInMemory \<Rightarrow> bool" where
  "archive_policy bm \<longleftrightarrow> (VersioningEnabled bm \<or> archivedObjects bm = [])"

text \<open>The three properties together, for a bucket and for every bucket of a store.\<close>

definition bucket_wf :: "bucketInMemory \<Rightarrow> bool" where
  "bucket_wf bm \<longleftrightarrow> active_unique bm \<and> archived_marked bm \<and> archive_policy bm"

definition store_wf :: "StorageMemory \<Rightarrow> bool" where
  "store_wf s \<longleftrightarrow> (\<forall>name bm. buckets s name = Some bm \<longrightarrow> bucket_wf bm)"

text \<open>Removal as \<^verbatim>\<open>deleteFromObjectList\<close> does it: the last entry takes the place of
  the one at \<open>i\<close>.\<close>

definition swap_remove :: "'a list \<Rightarrow> nat \<Rightarrow> 'a list" where
  "swap_remove xs i = take (length xs - 1) (xs[i := xs ! (length xs - 1)])"

subsection \<open>Concrete inputs\<close>

definition ex_time :: Time where
  "ex_time = \<lparr>UnixNano = 1700000000000000000, RFC3339 = ''2023-11-14T22:13:20Z''\<rparr>"

definition ex_clock :: Clock where
  "ex_clock = \<lparr>nowCreated = ex_time, nowGeneration = ex_time, nowDeleted = ex_time\<rparr>"

definition ex_objX :: Object where
  "ex_objX = \<lparr>BucketName = ''b'', Name = ''o'', Generation = 5, Deleted = [], Content = ''x''\<rparr>"

definition ex_objY :: Object where
  "ex_objY = \<lparr>BucketName = ''b'', Name = ''o'', Generation = 5, Deleted = [], Content = ''y''\<rparr>"

definition ex_empty :: StorageMemory where
  "ex_empty = \<lparr>buckets = Map.empty\<rparr>"

text \<open>A bucket \<open>b\<close> with the given versioning flag, holding the given active objects.\<close>

definition ex_bucket :: "bool \<Rightarrow> Object list \<Rightarrow> bucketInMemory" where
  "ex_bucket v objs =
     \<lparr>Bucket.Name = ''b'', VersioningEnabled = v, TimeCreated = ex_time,
      activeObjects = objs, archivedObjects = []\<rparr>"

definition ex_store :: "bool \<Rightarrow> Object list \<Rightarrow> StorageMemory" where
  "ex_store v objs = \<lparr>buckets = [''b'' \<mapsto> ex_bucket v objs]\<rparr>"

definition ex_dup :: StorageMemory where
  "ex_dup = run ex_empty
     [OpCreateBucket ex_clock ''b'' True, OpCreateObject ex_clock ex_objX,
      OpCreateObject ex_clock ex_objY]"

definition ex_objZ :: Object where
  "ex_objZ = \<lparr>BucketName = ''b'', Name = ''o'', Generation = 6, Deleted = [], Content = ''z''\<rparr>"

definition ex_hist :: StorageMemory where
  "ex_hist = run ex_empty
     [OpCreateBucket ex_clock ''b'' True, OpCreateObject ex_clock ex_objX,
      OpCreateObject ex_clock ex_objZ]"

definition ex_obj0 :: Object where
  "ex_obj0 = \<lparr>BucketName = ''b'', Name = ''o'', Generation = 0, Deleted = [], Content = ''x''\<rparr>"

definition ex_ops :: "operation list" where
  "ex_ops =
     [OpCreateBucket ex_clock ''v'' True, OpCreateObject ex_clock ex_objY,
      OpGetObject ''b'' ''o'', OpDeleteObject ex_clock ''b'' ''o'',
      OpCreateObject ex_clock ex_objZ]"



section \<open>Lookup and removal\<close>

lemma findObject_from_eq:
  "findObject_from i obj xs mg =
     (if \<exists>x\<in>set xs. matches obj mg x
      then i + int (length (takeWhile (\<lambda>x. \<not> matches obj mg x) xs)) else -1)"
  by (induction xs arbitrary: i) (auto simp: matches_def)

lemma findObject_eq:
  "findObject obj xs mg =
     (if \<exists>x\<in>set xs. matches obj mg x
      then int (length (takeWhile (\<lambda>x. \<not> matches obj mg x) xs)) else -1)"
  by (simp add: findObject_def findObject_from_eq)

lemma findObject_neg_iff:
  "findObject obj xs mg < 0 \<longleftrightarrow> (\<forall>x\<in>set xs. \<not> matches obj mg x)"
  by (simp add: findObject_eq)

lemma findObject_nonneg_iff:
  "0 \<le> findObject obj xs mg \<longleftrightarrow> (\<exists>x\<in>set xs. matches obj mg x)"
  by (simp add: findObject_eq)

lemma takeWhile_first:
  "\<exists>x\<in>set xs. P x \<Longrightarrow>
   length (takeWhile (\<lambda>x. \<not> P x) xs) < length xs \<and> P (xs ! length (takeWhile (\<lambda>x. \<not> P x) xs))
   \<and> (\<forall>j < length (takeWhile (\<lambda>x. \<not> P x) xs). \<not> P (xs ! j))"
proof (induction xs)
  case Nil
  then show ?case by simp
next
  case (Cons a xs)
  show ?case
  proof (cases "P a")
    case True
    then show ?thesis by simp
  next
    case False
    with Cons.prems have "\<exists>x\<in>set xs. P x" by simp
    from Cons.IH [OF this] False show ?thesis
      by (auto simp: nth_Cons split: nat.splits)
  qed
qed

lemma findObject_bounds:
  assumes "0 \<le> findObject obj xs mg"
  shows "nat (findObject obj xs mg) < length xs"
    and "matches obj mg (xs ! nat (findObject obj xs mg))"
    and "\<forall>j < nat (findObject obj xs mg). \<not> matches obj mg (xs ! j)"
proof -
  from assms have ex: "\<exists>x\<in>set xs. matches obj mg x"
    by (simp add: findObject_nonneg_iff)
  then have idx: "nat (findObject obj xs mg) = length (takeWhile (\<lambda>x. \<not> matches obj mg x) xs)"
    by (simp add: findObject_eq)
  from takeWhile_first [of xs "matches obj mg", OF ex] idx
  show "nat (findObject obj xs mg) < length xs"
    and "matches obj mg (xs ! nat (findObject obj xs mg))"
    and "\<forall>j < nat (findObject obj xs mg). \<not> matches obj mg (xs ! j)"
    by simp_all
qed

lemma takeWhile_first_unique:
  "i < length xs \<Longrightarrow> P (xs ! i) \<Longrightarrow> \<forall>j<i. \<not> P (xs ! j) \<Longrightarrow>
   length (takeWhile (\<lambda>x. \<not> P x) xs) = i"
proof (induction xs arbitrary: i)
  case Nil
  then show ?case by simp
next
  case (Cons a xs)
  show ?case
  proof (cases i)
    case 0
    with Cons.prems show ?thesis by simp
  next
    case (Suc k)
    with Cons.prems have a: "\<not> P a" by auto
    from Suc Cons.prems have "k < length xs" "P (xs ! k)" "\<forall>j<k. \<not> P (xs ! j)"
      by auto
    from Cons.IH [OF this] a Suc show ?thesis by simp
  qed
qed

lemma findObject_first:
  assumes "i < length xs" "matches obj mg (xs ! i)" "\<forall>j<i. \<not> matches obj mg (xs ! j)"
  shows "findObject obj xs mg = int i"
proof -
  from assms(1,2) have "\<exists>x\<in>set xs. matches obj mg x"
    using nth_mem by blast
  then show ?thesis
    using takeWhile_first_unique [of i xs "matches obj mg", OF assms]
    by (simp add: findObject_eq)
qed

lemma find_takeWhile:
  "find P xs =
     (if \<exists>x\<in>set xs. P x then Some (xs ! length (takeWhile (\<lambda>x. \<not> P x) xs)) else None)"
  by (induction xs) auto

lemma findObject_find:
  "find (matches obj mg) xs =
     (if 0 \<le> findObject obj xs mg then Some (xs ! nat (findObject obj xs mg)) else None)"
  by (simp add: find_takeWhile [of "matches obj mg"] findObject_eq)

lemma swap_remove_mset:
  assumes "i < length xs"
  shows "mset (swap_remove xs i) = mset xs - {#xs ! i#}"
proof (cases xs rule: rev_cases)
  case Nil
  with assms show ?thesis by simp
next
  case (snoc ys l)
  show ?thesis
  proof (cases "i = length ys")
    case True
    with snoc show ?thesis by (simp add: swap_remove_def)
  next
    case False
    with assms snoc have lt: "i < length ys" by simp
    then have "ys ! i \<in># mset ys" by simp
    with lt snoc show ?thesis
      by (simp add: swap_remove_def list_update_append nth_append mset_update)
  qed
qed

lemma swap_remove_distinct_map:
  assumes "i < length xs" "distinct (map f xs)"
  shows "distinct (map f (swap_remove xs i))"
    and "f (xs ! i) \<notin> f ` set (swap_remove xs i)"
proof -
  from assms(1) have "xs ! i \<in># mset xs" by simp
  with swap_remove_mset [OF assms(1)] have "mset xs = mset (xs ! i # swap_remove xs i)"
    by simp
  then have "mset (map f xs) = mset (map f (xs ! i # swap_remove xs i))"
    by (metis mset_map)
  with assms(2) have d: "distinct (map f (xs ! i # swap_remove xs i))"
    by (metis mset_eq_imp_distinct_iff)
  from d show "distinct (map f (swap_remove xs i))" by simp
  from d show "f (xs ! i) \<notin> f ` set (swap_remove xs i)" by simp
qed

lemma matches_Deleted [simp]: "matches (obj\<lparr>Deleted := d\<rparr>) mg ob = matches obj mg ob"
  by (simp add: matches_def ID_def IDNoGen_def)

lemma findObject_Deleted: "findObject (obj\<lparr>Deleted := d\<rparr>) xs mg = findObject obj xs mg"
  by (simp add: findObject_eq)

lemma matches_logical: "matches obj mg ob \<Longrightarrow> matches obj False ob"
  by (cases mg) (simp_all add: matches_def ID_def IDNoGen_def)

lemma findObject_logical:
  "0 \<le> findObject obj xs mg \<Longrightarrow> 0 \<le> findObject obj xs False"
  unfolding findObject_nonneg_iff using matches_logical by blast

section \<open>The bucket operations in closed form\<close>

lemma deleteFromObjectList_active:
  assumes "0 \<le> findObject obj (activeObjects bm) False"
  shows "deleteFromObjectList obj True bm =
    Inr (bm\<lparr>activeObjects :=
               swap_remove (activeObjects bm) (nat (findObject obj (activeObjects bm) False))\<rparr>)"
  using assms findObject_bounds(1) [OF assms]
  by (simp add: deleteFromObjectList_def swap_remove_def Let_def)

lemma deleteObject_eq:
  "deleteObject c obj mg bm =
     (if findObject obj (activeObjects bm) mg < 0 then Inr bm
      else if VersioningEnabled bm then
        Inr (bm\<lparr>activeObjects :=
                   swap_remove (activeObjects bm) (nat (findObject obj (activeObjects bm) False)),
                 archivedObjects :=
                   archivedObjects bm @ [obj\<lparr>Deleted := RFC3339 (nowDeleted c)\<rparr>]\<rparr>)
      else
        Inr (bm\<lparr>activeObjects :=
                   swap_remove (activeObjects bm) (nat (findObject obj (activeObjects bm) False))\<rparr>))"
proof (cases "findObject obj (activeObjects bm) mg < 0")
  case True
  then show ?thesis by (simp add: deleteObject_def)
next
  case False
  then have l: "0 \<le> findObject obj (activeObjects bm) False"
    using findObject_logical [of obj "activeObjects bm" mg] by simp
  from False l show ?thesis
    by (simp add: deleteObject_def mvToArchive_def cpToArchive_def
        deleteFromObjectList_active findObject_Deleted)
qed

lemma addObject_eq:
  "addObject c obj0 bm =
     (let obj = obj0\<lparr>Generation := getNewGenerationIfZero (nowGeneration c) (Generation obj0)\<rparr>;
          index = findObject obj (activeObjects bm) False
      in if 0 \<le> index then
           if VersioningEnabled bm then
             bm\<lparr>activeObjects := (activeObjects bm)[nat index := obj],
                archivedObjects := archivedObjects bm @
                  [(activeObjects bm ! nat index)\<lparr>Deleted := RFC3339 (nowDeleted c)\<rparr>]\<rparr>
           else bm\<lparr>activeObjects := (activeObjects bm)[nat index := obj]\<rparr>
         else bm\<lparr>activeObjects := activeObjects bm @ [obj]\<rparr>)"
proof -
  let ?obj = "obj0\<lparr>Generation := getNewGenerationIfZero (nowGeneration c) (Generation obj0)\<rparr>"
  show ?thesis
  proof (cases "0 \<le> findObject ?obj (activeObjects bm) False")
    case True
    from findObject_bounds(1) [OF True] True show ?thesis
      by (simp add: addObject_def cpToArchive_def Let_def)
  next
    case False
    then show ?thesis by (simp add: addObject_def Let_def)
  qed
qed

section \<open>Generations and lookups\<close>

lemma trunc_div_1000:
  "k sdiv (1000 :: int) = (if k < 0 then - ((- k) div 1000) else k div 1000)"
  by (simp add: signed_divide_int_def sgn_if)

lemma trunc_div_1000_eq_0_iff: "k sdiv (1000 :: int) = 0 \<longleftrightarrow> - 1000 < k \<and> k < 1000"
  unfolding trunc_div_1000 by (auto simp: div_eq_0_iff zdiv_eq_0_iff)

lemma div_1000_le: "0 \<le> a \<Longrightarrow> 0 \<le> a div 1000 \<and> a div 1000 \<le> a" for a :: int
  using zdiv_mono2 [of a 1 1000] by (simp add: pos_imp_zdiv_nonneg_iff)

lemma trunc_div_1000_abs: "\<bar>k sdiv (1000 :: int)\<bar> \<le> \<bar>k\<bar>"
  unfolding trunc_div_1000
  using div_1000_le [of k] div_1000_le [of "- k"] by (simp split: if_splits)

lemma int64_of_int_eq_0:
  assumes "(word_of_int q :: int64) = 0" "\<bar>q\<bar> \<le> 2 ^ 63"
  shows "q = 0"
proof -
  from assms(1) have "(2 ^ 64 :: int) dvd q" by (simp add: word_of_int_eq_0_iff)
  then obtain m where m: "q = 2 ^ 64 * m" by (auto simp: dvd_def)
  with assms(2) have "m = 0" by simp
  with m show "q = 0" by simp
qed

lemma sint_int64_abs: "\<bar>sint (x :: int64)\<bar> \<le> 2 ^ 63"
  using sint_ge [of x] sint_lt [of x] by (simp add: abs_le_iff)

lemma int64_div_1000_eq_0_iff:
  "int64_div x 1000 = 0 \<longleftrightarrow> - 1000 < sint x \<and> sint x < 1000"
proof -
  have "\<bar>sint x sdiv (1000 :: int)\<bar> \<le> 2 ^ 63"
    using trunc_div_1000_abs [of "sint x"] sint_int64_abs [of x] by linarith
  then have "(word_of_int (sint x sdiv 1000) :: int64) = 0 \<longleftrightarrow> sint x sdiv (1000 :: int) = 0"
    using int64_of_int_eq_0 by auto
  then show ?thesis
    by (simp add: int64_div_def trunc_div_1000_eq_0_iff)
qed

lemma findObject_probe:
  "IDNoGen p = IDNoGen q \<Longrightarrow> findObject p xs False = findObject q xs False"
  by (simp add: findObject_eq matches_def)

lemma addObject_lookup:
  fixes c obj bm
  defines "obj' \<equiv> obj\<lparr>Generation := getNewGenerationIfZero (nowGeneration c) (Generation obj)\<rparr>"
  shows "0 \<le> findObject obj' (activeObjects (addObject c obj bm)) False
       \<and> activeObjects (addObject c obj bm) ! nat (findObject obj' (activeObjects (addObject c obj bm)) False) = obj'"
proof (cases "0 \<le> findObject obj' (activeObjects bm) False")
  case True
  let ?i = "nat (findObject obj' (activeObjects bm) False)"
  let ?xs = "(activeObjects bm)[?i := obj']"
  from findObject_bounds [OF True]
  have i: "?i < length (activeObjects bm)"
    and before: "\<forall>j < ?i. \<not> matches obj' False (activeObjects bm ! j)"
    by simp_all
  from True have a: "activeObjects (addObject c obj bm) = ?xs"
    by (simp add: addObject_eq obj'_def Let_def)
  have "findObject obj' ?xs False = int ?i"
  proof (rule findObject_first)
    show "?i < length ?xs" using i by simp
    show "matches obj' False (?xs ! ?i)" using i by (simp add: matches_def)
    show "\<forall>j < ?i. \<not> matches obj' False (?xs ! j)" using before by simp
  qed
  with a i True show ?thesis by simp
next
  case False
  let ?xs = "activeObjects bm @ [obj']"
  from False have none: "\<forall>x\<in>set (activeObjects bm). \<not> matches obj' False x"
    by (simp add: findObject_neg_iff [symmetric])
  from False have a: "activeObjects (addObject c obj bm) = ?xs"
    by (simp add: addObject_eq obj'_def Let_def)
  have "findObject obj' ?xs False = int (length (activeObjects bm))"
  proof (rule findObject_first)
    show "length (activeObjects bm) < length ?xs" by simp
    show "matches obj' False (?xs ! length (activeObjects bm))" by (simp add: matches_def)
    show "\<forall>j < length (activeObjects bm). \<not> matches obj' False (?xs ! j)"
      using none by (simp add: nth_append)
  qed
  with a show ?thesis by simp
qed


lemma GetObject_eq:
  "GetObject s b n =
     (case buckets s b of
        None \<Rightarrow> Inl (NoBucketNamed b)
      | Some bm \<Rightarrow>
          (case find (\<lambda>ob. IDNoGen ob = (b, n)) (activeObjects bm) of
             None \<Rightarrow> Inl ObjectNotFound
           | Some ob \<Rightarrow> Inr ob))"
proof -
  let ?p = "\<lparr>BucketName = b, Name = n, Generation = 0, Deleted = [], Content = []\<rparr>"
  have "matches ?p False = (\<lambda>ob. IDNoGen ob = (b, n))"
    by (auto simp: matches_def IDNoGen_def fun_eq_iff)
  then show ?thesis
    using findObject_find [of ?p False]
    by (simp add: GetObject_def GetObjectWithGeneration_def getBucketInMemory_def Let_def
        split: option.splits)
qed

lemma GetObjectWithGeneration_eq:
  "g \<noteq> 0 \<Longrightarrow> GetObjectWithGeneration s b n g =
     (case buckets s b of
        None \<Rightarrow> Inl (NoBucketNamed b)
      | Some bm \<Rightarrow>
          (case find (\<lambda>ob. ID ob = (b, n, g)) (activeObjects bm @ archivedObjects bm) of
             None \<Rightarrow> Inl ObjectNotFound
           | Some ob \<Rightarrow> Inr ob))"
proof -
  assume g: "g \<noteq> 0"
  let ?p = "\<lparr>BucketName = b, Name = n, Generation = g, Deleted = [], Content = []\<rparr>"
  have "matches ?p True = (\<lambda>ob. ID ob = (b, n, g))"
    by (auto simp: matches_def ID_def fun_eq_iff)
  then show ?thesis
    using findObject_find [of ?p True] g
    by (simp add: GetObjectWithGeneration_def getBucketInMemory_def Let_def
        split: option.splits)
qed

lemmas engine_defs = run_def CreateBucket_def CreateObject_def getBucketInMemory_def
  newBucketInMemory_def addObject_def getNewGenerationIfZero_def findObject_def IDNoGen_def ID_def
  cpToArchive_def Let_def ListObjects_def GetObjectWithGeneration_def

lemma find_first_nth:
  assumes "k < length xs" "P (xs ! k)" "\<forall>j<k. \<not> P (xs ! j)"
  shows "find P xs = Some (xs ! k)"
proof -
  from assms(1,2) have "\<exists>x\<in>set xs. P x" using nth_mem by blast
  with takeWhile_first_unique [OF assms] show ?thesis
    by (simp add: find_takeWhile)
qed

lemma find_append_none:
  "\<forall>x\<in>set xs. \<not> P x \<Longrightarrow> find P (xs @ ys) = find P ys"
  by (induction xs) auto

lemma find_result_NotFound:
  "(case find P xs of None \<Rightarrow> Inl ObjectNotFound | Some ob \<Rightarrow> Inr ob) = Inl ObjectNotFound
   \<longleftrightarrow> (\<forall>x\<in>set xs. \<not> P x)"
  by (simp add: find_takeWhile)

lemma ex_hist_bucket:
  "buckets ex_hist ''b'' =
     Some \<lparr>Bucket.Name = ''b'', VersioningEnabled = True, TimeCreated = ex_time,
           activeObjects = [ex_objZ],
           archivedObjects = [ex_objX\<lparr>Deleted := RFC3339 ex_time\<rparr>]\<rparr>"
  by (simp add: ex_hist_def ex_empty_def ex_objX_def ex_objZ_def ex_clock_def engine_defs)

section \<open>Keys of the active list\<close>



lemma two_matches:
  assumes "i < j" "j < length xs" "P (xs ! i)" "P (xs ! j)"
  shows "2 \<le> length (filter P xs)"
proof -
  from assms(2) have xs: "xs = take j xs @ xs ! j # drop (Suc j) xs"
    by (rule id_take_nth_drop)
  from assms(1,2) have "xs ! i \<in> set (take j xs)"
    by (auto simp: in_set_conv_nth intro!: exI [of _ i])
  with assms(3) have "filter P (take j xs) \<noteq> []"
    by (auto simp: filter_empty_conv)
  then have "1 \<le> length (filter P (take j xs))"
    by (cases "filter P (take j xs)") simp_all
  moreover have "filter P xs = filter P (take j xs) @ filter P (xs ! j # drop (Suc j) xs)"
    using xs by (metis filter_append)
  ultimately show ?thesis using assms(4) by simp
qed

lemma at_most_one_index:
  assumes "i < length xs" "j < length xs" "P (xs ! i)" "P (xs ! j)" "length (filter P xs) \<le> 1"
  shows "i = j"
proof (rule ccontr)
  assume "i \<noteq> j"
  then consider "i < j" | "j < i" by linarith
  then have "2 \<le> length (filter P xs)"
  proof cases
    case 1
    from two_matches [OF 1 assms(2,3,4)] show ?thesis .
  next
    case 2
    from two_matches [OF 2 assms(1,4,3)] show ?thesis .
  qed
  with assms(5) show False by simp
qed

lemma swap_remove_filter_empty:
  assumes "i < length xs" "P (xs ! i)" "length (filter P xs) \<le> 1"
  shows "filter P (swap_remove xs i) = []"
proof -
  from assms(1) have m: "xs ! i \<in># mset xs" by simp
  with swap_remove_mset [OF assms(1)] have "mset xs = mset (xs ! i # swap_remove xs i)"
    by simp
  then have "mset (filter P xs) = mset (filter P (xs ! i # swap_remove xs i))"
    by (metis mset_filter)
  then have "length (filter P xs) = length (filter P (xs ! i # swap_remove xs i))"
    by (rule mset_eq_length)
  with assms(2,3) show ?thesis by simp
qed



lemma matches_logical_key: "matches obj False = (\<lambda>ob. IDNoGen ob = IDNoGen obj)"
  by (auto simp: matches_def fun_eq_iff)

lemma findObject_same_index:
  assumes "0 \<le> findObject obj xs mg"
    and "length (filter (\<lambda>ob. IDNoGen ob = IDNoGen obj) xs) \<le> 1"
  shows "findObject obj xs False = findObject obj xs mg"
proof -
  let ?P = "\<lambda>ob. IDNoGen ob = IDNoGen obj"
  from assms(1) have l: "0 \<le> findObject obj xs False" by (rule findObject_logical)
  from findObject_bounds(1,2) [OF assms(1)]
  have i: "nat (findObject obj xs mg) < length xs" "?P (xs ! nat (findObject obj xs mg))"
    using matches_logical [of obj mg] by (simp_all add: matches_logical_key)
  from findObject_bounds(1,2) [OF l]
  have j: "nat (findObject obj xs False) < length xs" "?P (xs ! nat (findObject obj xs False))"
    by (simp_all add: matches_logical_key)
  from at_most_one_index [of _ xs _ ?P, OF i(1) j(1) i(2) j(2) assms(2)] assms(1) l
  show ?thesis by simp
qed

lemma GetObject_none_active:
  assumes "buckets s b = Some bm'" "active_with (b, n) bm' = []"
  shows "GetObject s b n = Inl ObjectNotFound"
  using assms by (simp add: GetObject_eq find_takeWhile active_with_def filter_empty_conv)

lemma GetObject_Inr:
  assumes "buckets s b = Some bk" "GetObject s b n = Inr e"
  shows "0 \<le> findObject e (activeObjects bk) False"
    and "activeObjects bk ! nat (findObject e (activeObjects bk) False) = e"
    and "IDNoGen e = (b, n)"
proof -
  let ?p = "\<lparr>BucketName = b, Name = n, Generation = 0, Deleted = [], Content = []\<rparr>"
  let ?i = "findObject ?p (activeObjects bk) False"
  from assms(1) have r: "GetObject s b n =
      (if ?i < 0 then Inl ObjectNotFound else Inr (activeObjects bk ! nat ?i))"
    by (simp add: GetObject_def GetObjectWithGeneration_def getBucketInMemory_def Let_def)
  have f: "0 \<le> ?i"
  proof (rule ccontr)
    assume "\<not> 0 \<le> ?i"
    with r assms(2) show False by simp
  qed
  with r assms(2) have e: "activeObjects bk ! nat ?i = e" by simp
  from findObject_bounds(2) [OF f] e have "IDNoGen ?p = IDNoGen e"
    by (simp add: matches_def)
  then have i: "findObject e (activeObjects bk) False = ?i"
    by (rule findObject_probe [symmetric])
  from f i show "0 \<le> findObject e (activeObjects bk) False" by simp
  from e i show "activeObjects bk ! nat (findObject e (activeObjects bk) False) = e" by simp
  from \<open>IDNoGen ?p = IDNoGen e\<close> show "IDNoGen e = (b, n)" by (simp add: IDNoGen_def)
qed

section \<open>Preservation of the invariant\<close>

lemma newBucketInMemory_wf: "bucket_wf (newBucketInMemory t name v)"
  by (simp add: bucket_wf_def newBucketInMemory_def active_unique_def archived_marked_def
      archive_policy_def)

lemma addObject_wf:
  assumes "stamp_ok c" "bucket_wf bm"
  shows "bucket_wf (addObject c obj bm)"
proof -
  define ob where "ob = obj\<lparr>Generation := getNewGenerationIfZero (nowGeneration c) (Generation obj)\<rparr>"
  define index where "index = findObject ob (activeObjects bm) False"
  have eq: "addObject c obj bm =
     (if 0 \<le> index then
           if VersioningEnabled bm then
             bm\<lparr>activeObjects := (activeObjects bm)[nat index := ob],
                archivedObjects := archivedObjects bm @
                  [(activeObjects bm ! nat index)\<lparr>Deleted := RFC3339 (nowDeleted c)\<rparr>]\<rparr>
           else bm\<lparr>activeObjects := (activeObjects bm)[nat index := ob]\<rparr>
         else bm\<lparr>activeObjects := activeObjects bm @ [ob]\<rparr>)"
    unfolding index_def ob_def using addObject_eq [of c obj bm] by (simp add: Let_def)
  from assms(2) have u: "distinct (map IDNoGen (activeObjects bm))"
    and a: "list_all (\<lambda>ob. Deleted ob \<noteq> []) (archivedObjects bm)"
    and p: "VersioningEnabled bm \<or> archivedObjects bm = []"
    by (simp_all add: bucket_wf_def active_unique_def archived_marked_def archive_policy_def)
  show ?thesis
  proof (cases "0 \<le> index")
    case True
    from findObject_bounds(1,2) [of ob "activeObjects bm" False] True
    have i: "nat index < length (activeObjects bm)"
      and k: "IDNoGen (activeObjects bm ! nat index) = IDNoGen ob"
      by (simp_all add: index_def matches_def)
    from i k have "map IDNoGen ((activeObjects bm)[nat index := ob]) = map IDNoGen (activeObjects bm)"
      by (simp add: map_update list_update_same_conv)
    with u have u': "distinct (map IDNoGen ((activeObjects bm)[nat index := ob]))" by simp
    from True u' a p assms(1) show ?thesis
      by (auto simp: eq bucket_wf_def active_unique_def archived_marked_def archive_policy_def
          stamp_ok_def)
  next
    case False
    then have "\<forall>x\<in>set (activeObjects bm). IDNoGen x \<noteq> IDNoGen ob"
      using findObject_neg_iff [of ob "activeObjects bm" False]
      by (simp add: index_def matches_def eq_commute [of "IDNoGen ob"])
    then have "IDNoGen ob \<notin> IDNoGen ` set (activeObjects bm)" by (metis imageE)
    with False u a p show ?thesis
      by (auto simp: eq bucket_wf_def active_unique_def archived_marked_def archive_policy_def)
  qed
qed

lemma deleteObject_wf:
  assumes "stamp_ok c" "bucket_wf bm" "deleteObject c obj mg bm = Inr bm'"
  shows "bucket_wf bm'"
proof (cases "findObject obj (activeObjects bm) mg < 0")
  case True
  with assms show ?thesis by (simp add: deleteObject_eq)
next
  case False
  define j where "j = nat (findObject obj (activeObjects bm) False)"
  from False have "0 \<le> findObject obj (activeObjects bm) False"
    using findObject_logical [of obj "activeObjects bm" mg] by simp
  from findObject_bounds(1) [OF this] have j: "j < length (activeObjects bm)"
    by (simp add: j_def)
  from assms(2) have u: "distinct (map IDNoGen (activeObjects bm))"
    and a: "list_all (\<lambda>ob. Deleted ob \<noteq> []) (archivedObjects bm)"
    and p: "VersioningEnabled bm \<or> archivedObjects bm = []"
    by (simp_all add: bucket_wf_def active_unique_def archived_marked_def archive_policy_def)
  from swap_remove_distinct_map(1) [OF j u]
  have u': "distinct (map IDNoGen (swap_remove (activeObjects bm) j))" .
  from assms(3) False have "bm' =
      (if VersioningEnabled bm then
         bm\<lparr>activeObjects := swap_remove (activeObjects bm) j,
            archivedObjects := archivedObjects bm @ [obj\<lparr>Deleted := RFC3339 (nowDeleted c)\<rparr>]\<rparr>
       else bm\<lparr>activeObjects := swap_remove (activeObjects bm) j\<rparr>)"
    by (simp add: deleteObject_eq j_def split: if_splits)
  with u' a p assms(1) show ?thesis
    by (auto simp: bucket_wf_def active_unique_def archived_marked_def archive_policy_def
        stamp_ok_def)
qed

lemma CreateBucket_wf: "store_wf s \<Longrightarrow> store_wf (snd (CreateBucket c name v s))"
  by (auto simp: store_wf_def CreateBucket_def getBucketInMemory_def newBucketInMemory_wf
      split: option.splits if_splits)

lemma CreateObject_wf:
  assumes "stamp_ok c" "store_wf s"
  shows "store_wf (snd (CreateObject c obj s))"
proof -
  define bm where "bm = (case getBucketInMemory s (BucketName obj) of
                  Inr bm \<Rightarrow> bm
                | Inl err \<Rightarrow> newBucketInMemory (nowCreated c) (BucketName obj) False)"
  from assms(2) have "bucket_wf bm"
    by (simp add: bm_def getBucketInMemory_def store_wf_def newBucketInMemory_wf
        split: option.splits)
  from addObject_wf [OF assms(1) this] assms(2) show ?thesis
    by (simp add: CreateObject_def bm_def [symmetric] store_wf_def Let_def)
qed

lemma DeleteObject_wf:
  assumes "stamp_ok c" "store_wf s"
  shows "store_wf (snd (DeleteObject c b n s))"
proof (cases "GetObject s b n")
  case (Inl err)
  with assms(2) show ?thesis by (simp add: DeleteObject_def)
next
  case (Inr ob)
  show ?thesis
  proof (cases "buckets s b")
    case None
    with Inr assms(2) show ?thesis by (simp add: DeleteObject_def getBucketInMemory_def)
  next
    case (Some bm)
    with assms(2) have wf: "bucket_wf bm" by (simp add: store_wf_def)
    show ?thesis
    proof (cases "deleteObject c ob True bm")
      case (Inl panic)
      with Inr Some assms(2) show ?thesis
        by (simp add: DeleteObject_def getBucketInMemory_def)
    next
      case r: (Inr bm')
      from deleteObject_wf [OF assms(1) wf r] have "bucket_wf bm'" .
      with Inr Some r assms(2) show ?thesis
        by (simp add: DeleteObject_def getBucketInMemory_def store_wf_def)
    qed
  qed
qed

lemma perform_wf: "op_stamp_ok opn \<Longrightarrow> store_wf s \<Longrightarrow> store_wf (perform s opn)"
  by (cases opn) (simp_all add: CreateBucket_wf CreateObject_wf DeleteObject_wf)

lemma run_wf: "list_all op_stamp_ok ops \<Longrightarrow> store_wf s \<Longrightarrow> store_wf (run s ops)"
  unfolding run_def
  by (induction ops arbitrary: s) (simp_all add: perform_wf)

lemma seedObject_wf:
  assumes "stamp_ok (fst co)" "store_wf s"
  shows "store_wf (seedObject s co)"
proof -
  define s1 where "s1 = snd (CreateBucket (fst co) (BucketName (snd co)) False s)"
  define bucket where "bucket = (case buckets s1 (BucketName (snd co)) of
      Some bm \<Rightarrow> bm | None \<Rightarrow> zeroBucketInMemory)"
  from assms(2) have s1: "store_wf s1" unfolding s1_def by (rule CreateBucket_wf)
  have "bucket_wf zeroBucketInMemory"
    by (simp add: bucket_wf_def zeroBucketInMemory_def active_unique_def archived_marked_def
        archive_policy_def)
  with s1 have "bucket_wf bucket"
    by (simp add: bucket_def store_wf_def split: option.splits)
  from addObject_wf [OF assms(1) this] s1 show ?thesis
    by (simp add: seedObject_def s1_def [symmetric] bucket_def [symmetric] store_wf_def Let_def)
qed

lemma foldl_seedObject_wf:
  "list_all (\<lambda>co. stamp_ok (fst co)) objects \<Longrightarrow> store_wf s \<Longrightarrow> store_wf (foldl seedObject s objects)"
  by (induction objects arbitrary: s) (simp_all add: seedObject_wf)

lemma NewStorageMemory_wf:
  "list_all (\<lambda>co. stamp_ok (fst co)) objects \<Longrightarrow> store_wf (NewStorageMemory objects)"
  unfolding NewStorageMemory_def
  by (rule foldl_seedObject_wf) (simp_all add: store_wf_def)

lemma store_wf_invariant: "store_wf s \<Longrightarrow> store_invariant s"
  by (simp add: store_wf_def store_invariant_def bucket_wf_def split: option.splits)



section \<open>The bucket operations on any bucket value\<close>






section \<open>The claims\<close>

text \<open>
  C8. For every store, bucket name and object name, \<^verbatim>\<open>GetObject\<close> returns what
  \<^verbatim>\<open>GetObjectWithGeneration\<close> returns for generation 0: the same object on success, the
  same error on failure.
\<close>

theorem GetObject_is_generation_zero:
  "GetObject s bucketName objectName = GetObjectWithGeneration s bucketName objectName 0"
  by (simp add: GetObject_def)

text \<open>
  C6. \<^verbatim>\<open>CreateBucket\<close>: when no bucket has the name, it succeeds and the store gains a
  bucket of that name with the given flag, the creation time read from the clock and no
  objects, every other bucket staying as it was; when a bucket of that name has the same
  flag, it succeeds and the store is unchanged; when a bucket of that name has the other
  flag, it fails with an error of kind Conflict that names the bucket, and the store is
  unchanged.
\<close>

theorem CreateBucket_cases:
  "(buckets s name = None \<longrightarrow>
      CreateBucket c name v s =
        (None, s\<lparr>buckets := (buckets s)(name \<mapsto>
           \<lparr>Bucket.Name = name, VersioningEnabled = v, TimeCreated = nowCreated c,
            activeObjects = [], archivedObjects = []\<rparr>)\<rparr>))
   \<and> (\<forall>bm. buckets s name = Some bm \<and> VersioningEnabled bm = v \<longrightarrow>
          CreateBucket c name v s = (None, s))
   \<and> (\<forall>bm. buckets s name = Some bm \<and> VersioningEnabled bm \<noteq> v \<longrightarrow>
          CreateBucket c name v s = (Some (BucketAlreadyExists name), s)
          \<and> kind (BucketAlreadyExists name) = Conflict)"
  by (auto simp: CreateBucket_def getBucketInMemory_def newBucketInMemory_def)

theorem CreateBucket_cases_witness:
  "buckets ex_empty ''b'' = None
   \<and> CreateBucket ex_clock ''b'' True ex_empty = (None, ex_store True [])
   \<and> buckets (ex_store True []) ''b'' = Some (ex_bucket True [])
   \<and> VersioningEnabled (ex_bucket True []) = True
   \<and> CreateBucket ex_clock ''b'' True (ex_store True []) = (None, ex_store True [])
   \<and> VersioningEnabled (ex_bucket True []) \<noteq> False
   \<and> CreateBucket ex_clock ''b'' False (ex_store True []) =
       (Some (BucketAlreadyExists ''b''), ex_store True [])"
  using CreateBucket_cases [of ex_empty "''b''" ex_clock True]
    CreateBucket_cases [of "ex_store True []" "''b''" ex_clock True]
    CreateBucket_cases [of "ex_store True []" "''b''" ex_clock False]
  by (simp add: ex_empty_def ex_store_def ex_bucket_def ex_clock_def)

text \<open>
  C9. Whenever \<^verbatim>\<open>deleteObject\<close> has found a matching entry in the active list (by full
  or by logical identity), the lookup that \<^verbatim>\<open>deleteFromObjectList\<close> repeats on the
  active list by logical identity, for the object with or without a stamped deleted
  marker, succeeds as well: its index is inside the list, the list is not empty, and
  \<^verbatim>\<open>deleteObject\<close> returns a bucket. No call of \<^verbatim>\<open>deleteObject\<close> ends in the panic of an
  index out of range.
\<close>

theorem deleteObject_in_bounds:
  "(0 \<le> findObject obj (activeObjects bm) matchGeneration \<longrightarrow>
      0 \<le> findObject (obj\<lparr>Deleted := d\<rparr>) (activeObjects bm) False
      \<and> findObject (obj\<lparr>Deleted := d\<rparr>) (activeObjects bm) False < int (length (activeObjects bm))
      \<and> 0 \<le> findObject obj (activeObjects bm) False
      \<and> findObject obj (activeObjects bm) False < int (length (activeObjects bm))
      \<and> 0 < length (activeObjects bm)
      \<and> deleteFromObjectList obj True bm \<noteq> Inl IndexOutOfRange
      \<and> mvToArchive (obj\<lparr>Deleted := d\<rparr>) bm \<noteq> Inl IndexOutOfRange)
   \<and> (\<exists>bm'. deleteObject c obj matchGeneration bm = Inr bm')"
proof (intro conjI impI)
  assume found: "0 \<le> findObject obj (activeObjects bm) matchGeneration"
  then have l: "0 \<le> findObject obj (activeObjects bm) False"
    by (rule findObject_logical)
  from findObject_bounds(1) [OF l]
  have b: "findObject obj (activeObjects bm) False < int (length (activeObjects bm))"
    by simp
  from l show "0 \<le> findObject (obj\<lparr>Deleted := d\<rparr>) (activeObjects bm) False"
    by (simp add: findObject_Deleted)
  from b show "findObject (obj\<lparr>Deleted := d\<rparr>) (activeObjects bm) False
               < int (length (activeObjects bm))"
    by (simp add: findObject_Deleted)
  from l show "0 \<le> findObject obj (activeObjects bm) False" .
  from b show "findObject obj (activeObjects bm) False < int (length (activeObjects bm))" .
  from l b show "0 < length (activeObjects bm)"
    by (cases "activeObjects bm") simp_all
  from l show "deleteFromObjectList obj True bm \<noteq> Inl IndexOutOfRange"
    by (simp add: deleteFromObjectList_active)
  from l show "mvToArchive (obj\<lparr>Deleted := d\<rparr>) bm \<noteq> Inl IndexOutOfRange"
    by (simp add: mvToArchive_def cpToArchive_def deleteFromObjectList_active findObject_Deleted)
next
  show "\<exists>bm'. deleteObject c obj matchGeneration bm = Inr bm'"
    by (simp add: deleteObject_eq)
qed

theorem deleteObject_in_bounds_witness:
  "0 \<le> findObject ex_objX (activeObjects (ex_bucket True [ex_objY])) True
   \<and> findObject (ex_objX\<lparr>Deleted := ''d''\<rparr>) (activeObjects (ex_bucket True [ex_objY])) False = 0
   \<and> length (activeObjects (ex_bucket True [ex_objY])) = 1
   \<and> (\<exists>bm'. deleteObject ex_clock ex_objX True (ex_bucket True [ex_objY]) = Inr bm')"
  using deleteObject_in_bounds [of ex_objX "ex_bucket True [ex_objY]" True "''d''" ex_clock]
  by (simp add: ex_bucket_def ex_objX_def ex_objY_def findObject_def ID_def IDNoGen_def)

text \<open>
  C10. The full identity is not unique across active and archived objects. Into a store
  without bucket \<open>b\<close>, create \<open>b\<close> with versioning enabled and then create two objects
  of the same name with the same non-zero generation \<open>g\<close>: the second is the active
  entry, the first (with its deleted marker stamped) is the archived entry, both have the
  full identity \<open>(b, n, g)\<close>, \<^verbatim>\<open>ListObjects\<close> with versions returns both, and
  \<^verbatim>\<open>GetObjectWithGeneration\<close> for \<open>g\<close> returns the active one.
\<close>

theorem duplicate_full_identity:
  assumes "buckets s b = None"
    and "BucketName o1 = b" "BucketName o2 = b"
    and "Object.Name o1 = n" "Object.Name o2 = n"
    and "Generation o1 = g" "Generation o2 = g" "g \<noteq> 0"
  shows "let s' = run s [OpCreateBucket c0 b True, OpCreateObject c1 o1, OpCreateObject c2 o2];
             archived = o1\<lparr>Deleted := RFC3339 (nowDeleted c2)\<rparr>
         in map_option activeObjects (buckets s' b) = Some [o2]
          \<and> map_option archivedObjects (buckets s' b) = Some [archived]
          \<and> ID o2 = (b, n, g) \<and> ID archived = (b, n, g)
          \<and> ListObjects s' b True = Inr [o2, archived]
          \<and> GetObjectWithGeneration s' b n g = Inr o2"
  using assms
  by (simp add: engine_defs)

theorem duplicate_full_identity_witness:
  "buckets ex_empty ''b'' = None \<and> Generation ex_objX = 5 \<and> Generation ex_objY = 5
   \<and> ListObjects ex_dup ''b'' True = Inr [ex_objY, ex_objX\<lparr>Deleted := RFC3339 ex_time\<rparr>]
   \<and> GetObjectWithGeneration ex_dup ''b'' ''o'' 5 = Inr ex_objY"
  using duplicate_full_identity [of ex_empty "''b''" ex_objX ex_objY "''o''" 5 ex_clock ex_clock ex_clock]
  by (simp add: ex_empty_def ex_objX_def ex_objY_def ex_dup_def ex_clock_def Let_def)

text \<open>
  C3, as stated, fails on its last sentence: in the store reached by creating a
  versioning-enabled bucket and writing two objects of one name with generation 5, the
  archived version carries generation 5, and \<^verbatim>\<open>GetObjectWithGeneration\<close> for 5 does not
  return it (it returns the active entry).
\<close>

theorem GetObjectWithGeneration_counterexample:
  "map_option archivedObjects (buckets ex_dup ''b'') = Some [ex_objX\<lparr>Deleted := RFC3339 ex_time\<rparr>]
   \<and> ID (ex_objX\<lparr>Deleted := RFC3339 ex_time\<rparr>) = (''b'', ''o'', 5)
   \<and> GetObjectWithGeneration ex_dup ''b'' ''o'' 5 \<noteq> Inr (ex_objX\<lparr>Deleted := RFC3339 ex_time\<rparr>)"
  by (simp add: ex_dup_def ex_empty_def ex_objX_def ex_objY_def ex_clock_def ex_time_def engine_defs)

text \<open>
  C3, amended. \<^verbatim>\<open>GetObjectWithGeneration\<close> fails with the bucket-level NotFound when
  the bucket is absent. When the bucket exists and the generation is 0 it returns the
  first entry of the active list with the logical identity (bucket, name); when the
  generation is not 0 it returns the first entry of the active list followed by the
  archived list with the full identity (bucket, name, generation). It fails with the
  object-level NotFound, a different error from the bucket-level one, exactly when no
  such entry exists. In particular, for a non-zero generation carried by an archived
  version, it returns that archived object provided no active entry and no earlier
  archived entry has the same full identity.
\<close>

theorem GetObjectWithGeneration_cases:
  "(buckets s b = None \<longrightarrow>
      GetObjectWithGeneration s b n g = Inl (NoBucketNamed b) \<and> kind (NoBucketNamed b) = NotFound)
   \<and> (\<forall>bm. buckets s b = Some bm \<longrightarrow>
        (g = 0 \<longrightarrow>
           GetObjectWithGeneration s b n g =
             (case find (\<lambda>ob. IDNoGen ob = (b, n)) (activeObjects bm) of
                Some ob \<Rightarrow> Inr ob | None \<Rightarrow> Inl ObjectNotFound))
      \<and> (g \<noteq> 0 \<longrightarrow>
           GetObjectWithGeneration s b n g =
             (case find (\<lambda>ob. ID ob = (b, n, g)) (activeObjects bm @ archivedObjects bm) of
                Some ob \<Rightarrow> Inr ob | None \<Rightarrow> Inl ObjectNotFound))
      \<and> (GetObjectWithGeneration s b n g = Inl ObjectNotFound \<longleftrightarrow>
           (if g = 0 then \<forall>ob\<in>set (activeObjects bm). IDNoGen ob \<noteq> (b, n)
            else \<forall>ob\<in>set (activeObjects bm @ archivedObjects bm). ID ob \<noteq> (b, n, g)))
      \<and> (\<forall>k. g \<noteq> 0 \<and> k < length (archivedObjects bm)
              \<and> ID (archivedObjects bm ! k) = (b, n, g)
              \<and> (\<forall>ob\<in>set (activeObjects bm). ID ob \<noteq> (b, n, g))
              \<and> (\<forall>j<k. ID (archivedObjects bm ! j) \<noteq> (b, n, g)) \<longrightarrow>
            GetObjectWithGeneration s b n g = Inr (archivedObjects bm ! k)))
   \<and> kind ObjectNotFound = NotFound \<and> ObjectNotFound \<noteq> NoBucketNamed b"
proof (intro conjI allI impI)
  assume "buckets s b = None"
  then show "GetObjectWithGeneration s b n g = Inl (NoBucketNamed b)"
    by (simp add: GetObjectWithGeneration_def getBucketInMemory_def)
next
  fix bm assume "buckets s b = Some bm" "g = 0"
  then show "GetObjectWithGeneration s b n g =
             (case find (\<lambda>ob. IDNoGen ob = (b, n)) (activeObjects bm) of
                Some ob \<Rightarrow> Inr ob | None \<Rightarrow> Inl ObjectNotFound)"
    using GetObject_eq [of s b n] by (simp add: GetObject_def split: option.splits)
next
  fix bm assume "buckets s b = Some bm" "g \<noteq> 0"
  then show "GetObjectWithGeneration s b n g =
             (case find (\<lambda>ob. ID ob = (b, n, g)) (activeObjects bm @ archivedObjects bm) of
                Some ob \<Rightarrow> Inr ob | None \<Rightarrow> Inl ObjectNotFound)"
    by (simp add: GetObjectWithGeneration_eq split: option.splits)
next
  fix bm assume bm: "buckets s b = Some bm"
  show "GetObjectWithGeneration s b n g = Inl ObjectNotFound \<longleftrightarrow>
           (if g = 0 then \<forall>ob\<in>set (activeObjects bm). IDNoGen ob \<noteq> (b, n)
            else \<forall>ob\<in>set (activeObjects bm @ archivedObjects bm). ID ob \<noteq> (b, n, g))"
  proof (cases "g = 0")
    case True
    with bm show ?thesis
      using GetObject_eq [of s b n] find_result_NotFound [of "\<lambda>ob. IDNoGen ob = (b, n)"]
      by (simp add: GetObject_def)
  next
    case False
    with bm show ?thesis
      using find_result_NotFound [of "\<lambda>ob. ID ob = (b, n, g)"]
      by (simp add: GetObjectWithGeneration_eq)
  qed
next
  fix bm k
  assume bm: "buckets s b = Some bm"
    and h: "g \<noteq> 0 \<and> k < length (archivedObjects bm)
              \<and> ID (archivedObjects bm ! k) = (b, n, g)
              \<and> (\<forall>ob\<in>set (activeObjects bm). ID ob \<noteq> (b, n, g))
              \<and> (\<forall>j<k. ID (archivedObjects bm ! j) \<noteq> (b, n, g))"
  from h have "find (\<lambda>ob. ID ob = (b, n, g)) (archivedObjects bm) = Some (archivedObjects bm ! k)"
    by (intro find_first_nth) simp_all
  with h have "find (\<lambda>ob. ID ob = (b, n, g)) (activeObjects bm @ archivedObjects bm)
               = Some (archivedObjects bm ! k)"
    by (simp add: find_append_none)
  with bm h show "GetObjectWithGeneration s b n g = Inr (archivedObjects bm ! k)"
    by (simp add: GetObjectWithGeneration_eq)
qed simp_all

theorem GetObjectWithGeneration_cases_witness:
  "buckets ex_empty ''b'' = None
   \<and> GetObjectWithGeneration ex_empty ''b'' ''o'' 5 = Inl (NoBucketNamed ''b'')
   \<and> GetObjectWithGeneration ex_hist ''b'' ''o'' 0 = Inr ex_objZ
   \<and> GetObjectWithGeneration ex_hist ''b'' ''o'' 5 = Inr (ex_objX\<lparr>Deleted := RFC3339 ex_time\<rparr>)
   \<and> GetObjectWithGeneration ex_hist ''b'' ''o'' 7 = Inl ObjectNotFound"
  using GetObjectWithGeneration_cases [of ex_empty "''b''" "''o''" 5]
    GetObjectWithGeneration_cases [of ex_hist "''b''" "''o''" 0]
    GetObjectWithGeneration_cases [of ex_hist "''b''" "''o''" 5]
    GetObjectWithGeneration_cases [of ex_hist "''b''" "''o''" 7]
  by (simp add: ex_hist_bucket ex_empty_def ex_objX_def ex_objZ_def ID_def IDNoGen_def)

text \<open>
  C7. \<^verbatim>\<open>CreateObject\<close> never returns an error. It leaves every other bucket alone; when
  the object's bucket does not exist, the bucket it leaves behind has versioning disabled
  and holds just the object; when it exists, the bucket is the result of \<^verbatim>\<open>addObject\<close>.
  Afterwards \<^verbatim>\<open>GetObject\<close> for the object's bucket and name returns the stored object:
  the object as given when its generation is not zero, and the object with the generation
  read from the clock (microseconds since the epoch) when it is zero. That generation is
  not zero unless the clock reads less than a microsecond from the epoch.
\<close>

theorem CreateObject_never_fails:
  "let s' = snd (CreateObject c obj s);
       b = BucketName obj;
       stored = obj\<lparr>Generation :=
                  (if Generation obj = 0 then int64_div (UnixNano (nowGeneration c)) 1000
                   else Generation obj)\<rparr>
   in fst (CreateObject c obj s) = None
    \<and> (\<forall>k. k \<noteq> b \<longrightarrow> buckets s' k = buckets s k)
    \<and> (buckets s b = None \<longrightarrow>
         buckets s' b =
           Some \<lparr>Bucket.Name = b, VersioningEnabled = False, TimeCreated = nowCreated c,
                 activeObjects = [stored], archivedObjects = []\<rparr>)
    \<and> (\<forall>bm. buckets s b = Some bm \<longrightarrow> buckets s' b = Some (addObject c obj bm))
    \<and> GetObject s' b (Object.Name obj) = Inr stored
    \<and> (Generation obj \<noteq> 0 \<longrightarrow> stored = obj)
    \<and> (Generation obj = 0
         \<and> \<not> (- 1000 < sint (UnixNano (nowGeneration c)) \<and> sint (UnixNano (nowGeneration c)) < 1000)
         \<longrightarrow> Generation stored \<noteq> 0)"
proof -
  define bm where "bm = (case getBucketInMemory s (BucketName obj) of
                  Inr bm \<Rightarrow> bm
                | Inl err \<Rightarrow> newBucketInMemory (nowCreated c) (BucketName obj) False)"
  define stored where "stored = obj\<lparr>Generation := getNewGenerationIfZero (nowGeneration c) (Generation obj)\<rparr>"
  define s' where "s' = snd (CreateObject c obj s)"
  have s': "s' = s\<lparr>buckets := (buckets s)(BucketName obj \<mapsto> addObject c obj bm)\<rparr>"
    by (simp add: s'_def CreateObject_def bm_def Let_def)
  have st: "stored = obj\<lparr>Generation :=
                  (if Generation obj = 0 then int64_div (UnixNano (nowGeneration c)) 1000
                   else Generation obj)\<rparr>"
    by (simp add: stored_def getNewGenerationIfZero_def)
  have 1: "fst (CreateObject c obj s) = None"
    by (simp add: CreateObject_def Let_def)
  have 2: "\<forall>k. k \<noteq> BucketName obj \<longrightarrow> buckets s' k = buckets s k"
    by (simp add: s')
  have 3: "buckets s (BucketName obj) = None \<longrightarrow>
         buckets s' (BucketName obj) =
           Some \<lparr>Bucket.Name = BucketName obj, VersioningEnabled = False, TimeCreated = nowCreated c,
                 activeObjects = [stored], archivedObjects = []\<rparr>"
    by (simp add: s' bm_def getBucketInMemory_def newBucketInMemory_def addObject_def
        findObject_def stored_def Let_def)
  have 4: "\<forall>bm. buckets s (BucketName obj) = Some bm \<longrightarrow> buckets s' (BucketName obj) = Some (addObject c obj bm)"
    by (simp add: s' bm_def getBucketInMemory_def)
  have p: "IDNoGen \<lparr>BucketName = BucketName obj, Name = Object.Name obj, Generation = 0,
                      Deleted = [], Content = []\<rparr> = IDNoGen stored"
    by (simp add: IDNoGen_def stored_def)
  have 5: "GetObject s' (BucketName obj) (Object.Name obj) = Inr stored"
    using addObject_lookup [of c obj bm]
    by (simp add: GetObject_def GetObjectWithGeneration_def getBucketInMemory_def s' Let_def
        findObject_probe [OF p] stored_def)
  have 6: "Generation obj \<noteq> 0 \<longrightarrow> stored = obj"
    by (simp add: st)
  have 7: "Generation obj = 0
         \<and> \<not> (- 1000 < sint (UnixNano (nowGeneration c)) \<and> sint (UnixNano (nowGeneration c)) < 1000)
         \<longrightarrow> Generation stored \<noteq> 0"
    by (simp add: st int64_div_1000_eq_0_iff)
  from 1 2 3 4 5 6 7 show ?thesis
    unfolding Let_def s'_def [symmetric] st [symmetric] by blast
qed

theorem CreateObject_never_fails_witness:
  "buckets ex_empty (BucketName ex_obj0) = None \<and> Generation ex_obj0 = 0
   \<and> sint (UnixNano (nowGeneration ex_clock)) = 1700000000000000000
   \<and> fst (CreateObject ex_clock ex_obj0 ex_empty) = None
   \<and> GetObject (snd (CreateObject ex_clock ex_obj0 ex_empty)) ''b'' ''o''
        = Inr (ex_obj0\<lparr>Generation := 1700000000000000\<rparr>)
   \<and> Generation ex_objX \<noteq> 0
   \<and> GetObject (snd (CreateObject ex_clock ex_objX (ex_store False [ex_objY]))) ''b'' ''o''
        = Inr ex_objX"
  using CreateObject_never_fails [of ex_clock ex_obj0 ex_empty]
    CreateObject_never_fails [of ex_clock ex_objX "ex_store False [ex_objY]"]
  by (simp add: ex_empty_def ex_obj0_def ex_objX_def ex_clock_def ex_time_def Let_def
      int64_div_def signed_divide_int_def)





text \<open>
  C4, as stated, fails twice. In a versioning-enabled bucket whose active entry has
  content \<open>x\<close>, \<^verbatim>\<open>deleteObject\<close> called with an object of the same full identity and
  content \<open>y\<close> archives the object it was called with, not the stored entry. And in the
  store reached by writing two objects of one name and generation 5 into a
  versioning-enabled bucket, \<^verbatim>\<open>DeleteObject\<close> archives the active version, but
  \<^verbatim>\<open>GetObjectWithGeneration\<close> for 5 returns the version archived before, not the deleted
  one.
\<close>

theorem deleteObject_versioned_counterexample:
  "findObject ex_objY (activeObjects (ex_bucket True [ex_objX])) True = 0
   \<and> activeObjects (ex_bucket True [ex_objX]) ! 0 = ex_objX
   \<and> deleteObject ex_clock ex_objY True (ex_bucket True [ex_objX]) =
       Inr ((ex_bucket True [])\<lparr>archivedObjects := [ex_objY\<lparr>Deleted := RFC3339 ex_time\<rparr>]\<rparr>)
   \<and> ex_objY\<lparr>Deleted := RFC3339 ex_time\<rparr> \<noteq> ex_objX\<lparr>Deleted := RFC3339 ex_time\<rparr>
   \<and> GetObject ex_dup ''b'' ''o'' = Inr ex_objY
   \<and> fst (DeleteObject ex_clock ''b'' ''o'' ex_dup) = None
   \<and> GetObjectWithGeneration (snd (DeleteObject ex_clock ''b'' ''o'' ex_dup)) ''b'' ''o'' 5
       = Inr (ex_objX\<lparr>Deleted := RFC3339 ex_time\<rparr>)
   \<and> Inr (ex_objX\<lparr>Deleted := RFC3339 ex_time\<rparr>) \<noteq> (Inr (ex_objY\<lparr>Deleted := RFC3339 ex_time\<rparr>) :: error + Object)"
  by (simp add: ex_dup_def ex_empty_def ex_bucket_def ex_objX_def ex_objY_def ex_clock_def
      ex_time_def engine_defs GetObject_def DeleteObject_def deleteObject_def mvToArchive_def
      deleteFromObjectList_def)

text \<open>
  C4, amended. With versioning enabled, whenever \<^verbatim>\<open>deleteObject\<close> finds a matching active
  entry, the object appended to the archive is its argument with the deleted marker
  stamped from the clock, and the entry removed from the active list is the first one with
  the argument's logical identity, which is the matched entry when the active list holds
  at most one entry with that identity. At the engine level, for a versioning-enabled
  bucket with at most one active entry of the name and an object \<open>e\<close> that \<^verbatim>\<open>GetObject\<close>
  returns, \<^verbatim>\<open>DeleteObject\<close> succeeds, it archives the stored entry \<open>e\<close> with its marker
  stamped and removes it from the active list, \<^verbatim>\<open>GetObject\<close> then fails with NotFound,
  \<^verbatim>\<open>ListObjects\<close> with versions lists the stamped entry, and
  \<^verbatim>\<open>GetObjectWithGeneration\<close> for its generation returns it when that generation is not
  zero and no entry archived before has the same full identity.
\<close>

theorem deleteObject_versioned:
  "(VersioningEnabled bm \<and> 0 \<le> findObject obj (activeObjects bm) matchGeneration \<longrightarrow>
      (let j = nat (findObject obj (activeObjects bm) False)
       in j < length (activeObjects bm)
        \<and> IDNoGen (activeObjects bm ! j) = IDNoGen obj
        \<and> deleteObject c obj matchGeneration bm =
            Inr (bm\<lparr>activeObjects := swap_remove (activeObjects bm) j,
                    archivedObjects :=
                      archivedObjects bm @ [obj\<lparr>Deleted := RFC3339 (nowDeleted c)\<rparr>]\<rparr>)
        \<and> (length (active_with (IDNoGen obj) bm) \<le> 1 \<longrightarrow>
             j = nat (findObject obj (activeObjects bm) matchGeneration))))
   \<and> (\<forall>bk e. buckets s b = Some bk \<and> VersioningEnabled bk
          \<and> length (active_with (b, n) bk) \<le> 1
          \<and> GetObject s b n = Inr e \<longrightarrow>
        (let s' = snd (DeleteObject c b n s);
             e' = e\<lparr>Deleted := RFC3339 (nowDeleted c)\<rparr>;
             active' = swap_remove (activeObjects bk) (nat (findObject e (activeObjects bk) False))
         in fst (DeleteObject c b n s) = None
          \<and> activeObjects bk ! nat (findObject e (activeObjects bk) False) = e
          \<and> buckets s' b =
              Some (bk\<lparr>activeObjects := active', archivedObjects := archivedObjects bk @ [e']\<rparr>)
          \<and> GetObject s' b n = Inl ObjectNotFound
          \<and> kind ObjectNotFound = NotFound
          \<and> ListObjects s' b True = Inr (active' @ archivedObjects bk @ [e'])
          \<and> (Generation e \<noteq> 0 \<and> (\<forall>a\<in>set (archivedObjects bk). ID a \<noteq> ID e) \<longrightarrow>
               GetObjectWithGeneration s' b n (Generation e) = Inr e')))"
proof (intro conjI allI impI)
  assume h: "VersioningEnabled bm \<and> 0 \<le> findObject obj (activeObjects bm) matchGeneration"
  define j where "j = nat (findObject obj (activeObjects bm) False)"
  from h have l: "0 \<le> findObject obj (activeObjects bm) False"
    using findObject_logical by blast
  from findObject_bounds(1,2) [OF l]
  have 1: "j < length (activeObjects bm)" and 2: "IDNoGen (activeObjects bm ! j) = IDNoGen obj"
    by (simp_all add: j_def matches_logical_key)
  from h have 3: "deleteObject c obj matchGeneration bm =
            Inr (bm\<lparr>activeObjects := swap_remove (activeObjects bm) j,
                    archivedObjects :=
                      archivedObjects bm @ [obj\<lparr>Deleted := RFC3339 (nowDeleted c)\<rparr>]\<rparr>)"
    by (simp add: deleteObject_eq j_def)
  have 4: "length (active_with (IDNoGen obj) bm) \<le> 1 \<longrightarrow>
             j = nat (findObject obj (activeObjects bm) matchGeneration)"
    using h findObject_same_index [of obj "activeObjects bm" matchGeneration]
    by (simp add: active_with_def j_def)
  from 1 2 3 4
  show "let j = nat (findObject obj (activeObjects bm) False)
       in j < length (activeObjects bm)
        \<and> IDNoGen (activeObjects bm ! j) = IDNoGen obj
        \<and> deleteObject c obj matchGeneration bm =
            Inr (bm\<lparr>activeObjects := swap_remove (activeObjects bm) j,
                    archivedObjects :=
                      archivedObjects bm @ [obj\<lparr>Deleted := RFC3339 (nowDeleted c)\<rparr>]\<rparr>)
        \<and> (length (active_with (IDNoGen obj) bm) \<le> 1 \<longrightarrow>
             j = nat (findObject obj (activeObjects bm) matchGeneration))"
    unfolding Let_def j_def [symmetric] by blast
next
  fix bk e
  assume h: "buckets s b = Some bk \<and> VersioningEnabled bk
          \<and> length (active_with (b, n) bk) \<le> 1
          \<and> GetObject s b n = Inr e"
  define i where "i = nat (findObject e (activeObjects bk) False)"
  define e' where "e' = e\<lparr>Deleted := RFC3339 (nowDeleted c)\<rparr>"
  define active' where "active' = swap_remove (activeObjects bk) i"
  define bk' where "bk' = bk\<lparr>activeObjects := active', archivedObjects := archivedObjects bk @ [e']\<rparr>"
  define s' where "s' = snd (DeleteObject c b n s)"
  from h have bk: "buckets s b = Some bk" and get: "GetObject s b n = Inr e"
    and u: "length (filter (\<lambda>ob. IDNoGen ob = (b, n)) (activeObjects bk)) \<le> 1"
    by (simp_all add: active_with_def)
  note g = GetObject_Inr [OF bk get]
  from g(1) findObject_bounds(1) have i: "i < length (activeObjects bk)"
    by (simp add: i_def)
  from g(2) have at: "activeObjects bk ! i = e" by (simp add: i_def)
  from i at have "e \<in> set (activeObjects bk)" using nth_mem by blast
  then have full: "0 \<le> findObject e (activeObjects bk) True"
    unfolding findObject_nonneg_iff by (auto simp: matches_def)
  from h full have d: "deleteObject c e True bk = Inr bk'"
    by (simp add: deleteObject_eq bk'_def active'_def i_def e'_def)
  from bk get d have r: "DeleteObject c b n s = (None, s\<lparr>buckets := (buckets s)(b \<mapsto> bk')\<rparr>)"
    by (simp add: DeleteObject_def getBucketInMemory_def)
  then have s': "buckets s' b = Some bk'" by (simp add: s'_def)
  from at g(3) have key: "IDNoGen (activeObjects bk ! i) = (b, n)" by simp
  from swap_remove_filter_empty [where P = "\<lambda>ob. IDNoGen ob = (b, n)", OF i key u]
  have none: "active_with (b, n) bk' = []"
    by (simp add: bk'_def active'_def active_with_def)
  then have gone: "\<forall>x\<in>set active'. IDNoGen x \<noteq> (b, n)"
    by (simp add: bk'_def active_with_def filter_empty_conv)
  have 1: "fst (DeleteObject c b n s) = None" by (simp add: r)
  have 2: "buckets s' b = Some (bk\<lparr>activeObjects := active', archivedObjects := archivedObjects bk @ [e']\<rparr>)"
    using s' by (simp add: bk'_def)
  have 3: "GetObject s' b n = Inl ObjectNotFound"
    by (rule GetObject_none_active [OF s' none])
  have 4: "ListObjects s' b True = Inr (active' @ archivedObjects bk @ [e'])"
    by (simp add: ListObjects_def getBucketInMemory_def s' bk'_def)
  have 5: "Generation e \<noteq> 0 \<and> (\<forall>a\<in>set (archivedObjects bk). ID a \<noteq> ID e) \<longrightarrow>
               GetObjectWithGeneration s' b n (Generation e) = Inr e'"
  proof
    assume a: "Generation e \<noteq> 0 \<and> (\<forall>a\<in>set (archivedObjects bk). ID a \<noteq> ID e)"
    from g(3) have id: "ID e = (b, n, Generation e)" by (simp add: ID_def IDNoGen_def)
    from gone have n1: "\<forall>x\<in>set active'. ID x \<noteq> (b, n, Generation e)"
      by (auto simp: ID_def IDNoGen_def)
    from a id have n2: "\<forall>x\<in>set (archivedObjects bk). ID x \<noteq> (b, n, Generation e)" by simp
    from id have "ID e' = (b, n, Generation e)" by (simp add: e'_def ID_def)
    with n1 n2 have "find (\<lambda>ob. ID ob = (b, n, Generation e)) (active' @ archivedObjects bk @ [e']) = Some e'"
      by (simp add: find_append_none)
    with a s' show "GetObjectWithGeneration s' b n (Generation e) = Inr e'"
      by (simp add: GetObjectWithGeneration_eq bk'_def)
  qed
  have k: "kind ObjectNotFound = NotFound" by simp
  from 1 at 2 3 k 4 5
  show "let s' = snd (DeleteObject c b n s);
             e' = e\<lparr>Deleted := RFC3339 (nowDeleted c)\<rparr>;
             active' = swap_remove (activeObjects bk) (nat (findObject e (activeObjects bk) False))
         in fst (DeleteObject c b n s) = None
          \<and> activeObjects bk ! nat (findObject e (activeObjects bk) False) = e
          \<and> buckets s' b =
              Some (bk\<lparr>activeObjects := active', archivedObjects := archivedObjects bk @ [e']\<rparr>)
          \<and> GetObject s' b n = Inl ObjectNotFound
          \<and> kind ObjectNotFound = NotFound
          \<and> ListObjects s' b True = Inr (active' @ archivedObjects bk @ [e'])
          \<and> (Generation e \<noteq> 0 \<and> (\<forall>a\<in>set (archivedObjects bk). ID a \<noteq> ID e) \<longrightarrow>
               GetObjectWithGeneration s' b n (Generation e) = Inr e')"
    unfolding Let_def s'_def [symmetric] e'_def [symmetric] i_def [symmetric] active'_def [symmetric]
    by blast
qed

theorem deleteObject_versioned_witness:
  "VersioningEnabled (ex_bucket True [ex_objX])
   \<and> findObject ex_objX (activeObjects (ex_bucket True [ex_objX])) True = 0
   \<and> length (active_with (IDNoGen ex_objX) (ex_bucket True [ex_objX])) \<le> 1
   \<and> deleteObject ex_clock ex_objX True (ex_bucket True [ex_objX]) =
       Inr ((ex_bucket True [])\<lparr>archivedObjects := [ex_objX\<lparr>Deleted := RFC3339 ex_time\<rparr>]\<rparr>)
   \<and> buckets (ex_store True [ex_objX]) ''b'' = Some (ex_bucket True [ex_objX])
   \<and> GetObject (ex_store True [ex_objX]) ''b'' ''o'' = Inr ex_objX
   \<and> Generation ex_objX \<noteq> 0
   \<and> fst (DeleteObject ex_clock ''b'' ''o'' (ex_store True [ex_objX])) = None
   \<and> GetObject (snd (DeleteObject ex_clock ''b'' ''o'' (ex_store True [ex_objX]))) ''b'' ''o''
       = Inl ObjectNotFound
   \<and> ListObjects (snd (DeleteObject ex_clock ''b'' ''o'' (ex_store True [ex_objX]))) ''b'' True
       = Inr [ex_objX\<lparr>Deleted := RFC3339 ex_time\<rparr>]
   \<and> GetObjectWithGeneration (snd (DeleteObject ex_clock ''b'' ''o'' (ex_store True [ex_objX])))
        ''b'' ''o'' 5 = Inr (ex_objX\<lparr>Deleted := RFC3339 ex_time\<rparr>)"
proof -
  have g: "GetObject (ex_store True [ex_objX]) ''b'' ''o'' = Inr ex_objX"
    by (simp add: ex_store_def ex_bucket_def ex_objX_def GetObject_def
        GetObjectWithGeneration_def getBucketInMemory_def findObject_def IDNoGen_def Let_def)
  show ?thesis
    using deleteObject_versioned [where bm = "ex_bucket True [ex_objX]" and obj = ex_objX
        and matchGeneration = True and c = ex_clock and s = "ex_store True [ex_objX]"
        and b = "''b''" and n = "''o''"] g
    by (simp add: ex_bucket_def ex_store_def ex_objX_def ex_clock_def findObject_def ID_def
        IDNoGen_def active_with_def swap_remove_def Let_def)
qed

text \<open>
  C2. In every store reached from the store that \<^verbatim>\<open>NewStorageMemory\<close> builds from any
  objects, or from the empty store, by any sequence of the public operations, every
  bucket's active list holds at most one entry per logical identity and every archived
  entry has a non-empty deleted marker, given that every clock reading formats to a
  non-empty string.
\<close>

theorem reachable_invariant:
  assumes "list_all (\<lambda>co. stamp_ok (fst co)) objects" "list_all op_stamp_ok ops"
  shows "store_invariant (run (NewStorageMemory objects) ops)
       \<and> store_invariant (run \<lparr>buckets = Map.empty\<rparr> ops)"
proof
  from NewStorageMemory_wf [OF assms(1)] have "store_wf (NewStorageMemory objects)" .
  from run_wf [OF assms(2) this] show "store_invariant (run (NewStorageMemory objects) ops)"
    by (rule store_wf_invariant)
  have "store_wf \<lparr>buckets = Map.empty\<rparr>" by (simp add: store_wf_def)
  from run_wf [OF assms(2) this] show "store_invariant (run \<lparr>buckets = Map.empty\<rparr> ops)"
    by (rule store_wf_invariant)
qed

theorem reachable_invariant_witness:
  "list_all (\<lambda>co. stamp_ok (fst co)) [(ex_clock, ex_objX)]
   \<and> list_all op_stamp_ok ex_ops
   \<and> store_invariant (run (NewStorageMemory [(ex_clock, ex_objX)]) ex_ops)
   \<and> store_invariant (run \<lparr>buckets = Map.empty\<rparr> ex_ops)"
  using reachable_invariant [of "[(ex_clock, ex_objX)]" ex_ops]
  by (simp add: stamp_ok_def ex_clock_def ex_time_def ex_ops_def)

end
